theory Spec2Isabelle
  imports Main
begin

section \<open>Packets, tags and algorithms\<close>

text \<open>
  The two modules under verification are the Symmetrically Encrypted Data packet
  (\<^verbatim>\<open>packet_symmetrically_encrypted\<close>) and the class \<^verbatim>\<open>Key\<close>.  Both work on
  packets through a handful of members only: \<^verbatim>\<open>tag\<close>, \<^verbatim>\<open>algorithm\<close>,
  \<^verbatim>\<open>getKeyId()\<close>, \<^verbatim>\<open>writePublicKey()\<close> and \<^verbatim>\<open>decrypt(passphrase)\<close>.
  Byte strings and key ids are JavaScript strings; \<open>keyid.equals\<close> is equality.
  The field \<open>body\<close> of a packet stands for everything else the packet holds
  (key material, whether it is still locked).
\<close>

type_synonym bytes = string
type_synonym keyid = string

text \<open>
  Modelled from the spec: the table \<^verbatim>\<open>enums.packet\<close> (file enums.js) is not part of
  the sources.  The spec gives the packet kinds as a fixed set
  (public_key, secret_key, public_subkey, secret_subkey, signature, user_id,
  symmetrically_encrypted, ...); the tags are pairwise different, and
  \<open>other_tag n\<close> stands for every kind the spec leaves out.
\<close>

datatype packet_tag =
    public_key
  | secret_key
  | public_subkey
  | secret_subkey
  | signature
  | user_id
  | symmetrically_encrypted
  | other_tag nat

text \<open>
  Modelled from the spec: the table \<^verbatim>\<open>enums.publicKey\<close> is not part of the sources
  either.  A packet's \<^verbatim>\<open>algorithm\<close> holds the name that
  \<^verbatim>\<open>enums.read(enums.publicKey, n)\<close> gives; the code names three of them, every
  other name is \<open>other_algorithm\<close>.
\<close>

datatype publicKey =
    rsa_encrypt_sign
  | rsa_sign
  | dsa
  | other_algorithm string

record packet =
  tag :: packet_tag
  algorithm :: publicKey
  getKeyId :: keyid
  body :: bytes

text \<open>
  A dereference of \<^verbatim>\<open>null\<close> or \<^verbatim>\<open>undefined\<close> throws a TypeError; \<open>Error\<close> is
  whatever a collaborator throws.
\<close>

datatype js_error = TypeError | Error string

section \<open>The collaborators\<close>

text \<open>
  The modules \<^verbatim>\<open>crypto\<close> and \<^verbatim>\<open>packet\<close> are not part of the sources; what the
  code calls in them is a parameter of the model.

  \<^item> \<open>cfb_decrypt sessionKeyAlgorithm key encrypted resync\<close> and
    \<open>cfb_encrypt prefixrandom algo data key resync\<close> are \<^verbatim>\<open>crypto.cfb.decrypt\<close> and
    \<^verbatim>\<open>crypto.cfb.encrypt\<close>, with the arguments in the order of the calls;
    \<open>getPrefixRandom algo\<close> is the prefix that \<^verbatim>\<open>crypto.getPrefixRandom\<close> draws at
    the call.
  \<^item> \<open>packetlist_read pl bytes\<close> is the packet list after \<^verbatim>\<open>pl.read(bytes)\<close>, and
    \<open>packetlist_write pl\<close> what \<^verbatim>\<open>pl.write()\<close> returns.
  \<^item> \<open>writePublicKey p\<close> is \<^verbatim>\<open>p.writePublicKey()\<close>; \<open>key_read bytes\<close> holds the
    fields that \<^verbatim>\<open>read(bytes)\<close> stores in a fresh key packet.
  \<^item> \<open>packet_decrypt passphrase p\<close> is \<^verbatim>\<open>p.decrypt(passphrase)\<close>: the truth value of
    what the call returns, and the packet as the call leaves it.

  The cipher and the packet list report a failure by throwing, so their results are
  sums.  The three calls on key packets are taken to return: they touch no packet
  but their own, and the packets of a list are different objects.
\<close>

record crypto =
  cfb_decrypt :: "nat \<Rightarrow> string \<Rightarrow> bytes option \<Rightarrow> bool \<Rightarrow> js_error + bytes"
  cfb_encrypt :: "bytes \<Rightarrow> nat \<Rightarrow> bytes \<Rightarrow> string \<Rightarrow> bool \<Rightarrow> js_error + bytes"
  getPrefixRandom :: "nat \<Rightarrow> js_error + bytes"
  packetlist_read :: "packet list \<Rightarrow> bytes \<Rightarrow> js_error + packet list"
  packetlist_write :: "packet list \<Rightarrow> js_error + bytes"

record packet_module =
  writePublicKey :: "packet \<Rightarrow> bytes"
  key_read :: "bytes \<Rightarrow> packet"
  packet_decrypt :: "string \<Rightarrow> packet \<Rightarrow> bool \<times> packet"

text \<open>
  Modelled from the spec: \<^verbatim>\<open>filterByTag\<close> of the packet list (file packetlist.js is
  not part of the sources) "returns matching packets preserving order".
\<close>

definition filterByTag :: "packet_tag list \<Rightarrow> packet list \<Rightarrow> packet list" where
  "filterByTag tags ps = filter (\<lambda>p. tag p \<in> set tags) ps"

text \<open>
  The list that \<^verbatim>\<open>filterByTag\<close> returns holds the packet objects of the list it
  filters, not copies: a call that mutates one of them shows in the key's own list.
  Where that matters the model keeps the positions of the matching packets.
\<close>

definition filterByTag_refs :: "packet_tag list \<Rightarrow> packet list \<Rightarrow> nat list" where
  "filterByTag_refs tags ps = filter (\<lambda>i. tag (ps ! i) \<in> set tags) [0..<length ps]"

section \<open>The Symmetrically Encrypted Data packet\<close>

text \<open>
  The object has two fields: \<^verbatim>\<open>encrypted\<close>, \<^verbatim>\<open>null\<close> at construction, and
  \<^verbatim>\<open>packets\<close>, which the constructor names but does not assign (it is
  \<^verbatim>\<open>undefined\<close> until a caller stores a packet list there).
\<close>

record packet_symmetrically_encrypted =
  encrypted :: "bytes option"
  packets :: "packet list option"

definition new_packet_symmetrically_encrypted :: packet_symmetrically_encrypted where
  "new_packet_symmetrically_encrypted = \<lparr>encrypted = None, packets = None\<rparr>"

definition sed_read :: "bytes \<Rightarrow> packet_symmetrically_encrypted \<Rightarrow> packet_symmetrically_encrypted" where
  "sed_read bytes s = s\<lparr>encrypted := Some bytes\<rparr>"

definition sed_write :: "packet_symmetrically_encrypted \<Rightarrow> bytes option" where
  "sed_write s = encrypted s"

text \<open>
  \<^verbatim>\<open>decrypt\<close>: the CFB decryption of \<^verbatim>\<open>this.encrypted\<close> first, then
  \<^verbatim>\<open>this.packets.read(decrypted)\<close>, which throws a TypeError when \<^verbatim>\<open>this.packets\<close>
  is undefined.  The field \<^verbatim>\<open>encrypted\<close> is not written.
\<close>

definition sed_decrypt ::
  "crypto \<Rightarrow> nat \<Rightarrow> string \<Rightarrow> packet_symmetrically_encrypted \<Rightarrow>
     js_error + packet_symmetrically_encrypted" where
  "sed_decrypt c sessionKeyAlgorithm key s =
     (case cfb_decrypt c sessionKeyAlgorithm key (encrypted s) True of
        Inl e \<Rightarrow> Inl e
      | Inr decrypted \<Rightarrow>
          (case packet_symmetrically_encrypted.packets s of
             None \<Rightarrow> Inl TypeError
           | Some pl \<Rightarrow>
               (case packetlist_read c pl decrypted of
                  Inl e \<Rightarrow> Inl e
                | Inr pl' \<Rightarrow> Inr (s\<lparr>packet_symmetrically_encrypted.packets := Some pl'\<rparr>))))"

text \<open>
  \<^verbatim>\<open>encrypt\<close>: \<^verbatim>\<open>this.packets.write()\<close> first (a TypeError when \<^verbatim>\<open>this.packets\<close> is
  undefined), then the random prefix, then the CFB encryption, whose result is
  stored in \<^verbatim>\<open>encrypted\<close>.  The field \<^verbatim>\<open>packets\<close> is not written.
\<close>

definition sed_encrypt ::
  "crypto \<Rightarrow> nat \<Rightarrow> string \<Rightarrow> packet_symmetrically_encrypted \<Rightarrow>
     js_error + packet_symmetrically_encrypted" where
  "sed_encrypt c algo key s =
     (case packet_symmetrically_encrypted.packets s of
        None \<Rightarrow> Inl TypeError
      | Some pl \<Rightarrow>
          (case packetlist_write c pl of
             Inl e \<Rightarrow> Inl e
           | Inr data \<Rightarrow>
               (case getPrefixRandom c algo of
                  Inl e \<Rightarrow> Inl e
                | Inr prefixrandom \<Rightarrow>
                    (case cfb_encrypt c prefixrandom algo data key True of
                       Inl e \<Rightarrow> Inl e
                     | Inr bytes \<Rightarrow> Inr (s\<lparr>encrypted := Some bytes\<rparr>)))))"

section \<open>The class Key\<close>

record Key =
  packets :: "packet list"

text \<open>\<^verbatim>\<open>new Key(packetlist)\<close>; without an argument the list is a new, empty one.\<close>

definition new_Key :: "packet list option \<Rightarrow> Key" where
  "new_Key packetlist = \<lparr>packets = (case packetlist of None \<Rightarrow> [] | Some pl \<Rightarrow> pl)\<rparr>"

fun getKeyPacket_loop :: "packet list \<Rightarrow> packet option" where
  "getKeyPacket_loop [] = None"
| "getKeyPacket_loop (p # ps) =
     (if tag p = public_key \<or> tag p = secret_key then Some p else getKeyPacket_loop ps)"

definition getKeyPacket :: "Key \<Rightarrow> packet option" where
  "getKeyPacket k = getKeyPacket_loop (Key.packets k)"

fun getSubkeyPackets_loop :: "packet list \<Rightarrow> packet list \<Rightarrow> packet list" where
  "getSubkeyPackets_loop [] subkeys = subkeys"
| "getSubkeyPackets_loop (p # ps) subkeys =
     getSubkeyPackets_loop ps
       (if tag p = public_subkey \<or> tag p = secret_subkey then subkeys @ [p] else subkeys)"

definition getSubkeyPackets :: "Key \<Rightarrow> packet list" where
  "getSubkeyPackets k = getSubkeyPackets_loop (Key.packets k) []"

text \<open>
  \<^verbatim>\<open>[this.getKeyPacket()].concat(this.getSubkeyPackets())\<close>: the first element of the
  array is \<^verbatim>\<open>null\<close> when the key has no primary key packet.
\<close>

definition getAllKeyPackets :: "Key \<Rightarrow> packet option list" where
  "getAllKeyPackets k = getKeyPacket k # map Some (getSubkeyPackets k)"

fun getKeyIds_loop :: "packet option list \<Rightarrow> keyid list \<Rightarrow> js_error + keyid list" where
  "getKeyIds_loop [] keyIds = Inr keyIds"
| "getKeyIds_loop (None # keys) keyIds = Inl TypeError"
| "getKeyIds_loop (Some p # keys) keyIds = getKeyIds_loop keys (keyIds @ [getKeyId p])"

definition getKeyIds :: "Key \<Rightarrow> js_error + keyid list" where
  "getKeyIds k = getKeyIds_loop (getAllKeyPackets k) []"

text \<open>\<^verbatim>\<open>findKey\<close>: the inner loop over \<^verbatim>\<open>keyIds\<close>, then the outer loop over \<^verbatim>\<open>keys\<close>.\<close>

fun findKey_inner :: "keyid \<Rightarrow> keyid list \<Rightarrow> bool" where
  "findKey_inner keyId [] = False"
| "findKey_inner keyId (x # keyIds) = (if keyId = x then True else findKey_inner keyId keyIds)"

fun findKey :: "packet list \<Rightarrow> keyid list \<Rightarrow> packet option" where
  "findKey [] keyIds = None"
| "findKey (p # keys) keyIds =
     (if findKey_inner (getKeyId p) keyIds then Some p else findKey keys keyIds)"

definition getPublicKeyPacket :: "Key \<Rightarrow> keyid list \<Rightarrow> packet option" where
  "getPublicKeyPacket k keyIds =
     findKey (filterByTag [public_key, public_subkey] (Key.packets k)) keyIds"

definition getPrivateKeyPacket :: "Key \<Rightarrow> keyid list \<Rightarrow> packet option" where
  "getPrivateKeyPacket k keyIds =
     findKey (filterByTag [secret_key, secret_subkey] (Key.packets k)) keyIds"

definition isPublic :: "Key \<Rightarrow> bool" where
  "isPublic k = (length (filterByTag [public_key] (Key.packets k)) \<noteq> 0)"

text \<open>
  \<^verbatim>\<open>isPrivate\<close> filters by \<^verbatim>\<open>enums.packet.private_key\<close>, a name that no other
  function of the class reads from that table (they read
  \<^verbatim>\<open>enums.packet.secret_key\<close>).  The table is not part of the sources, so what the
  lookup yields is the parameter \<open>private_key\<close>: \<open>Some t\<close> when the table maps the
  name to the tag \<open>t\<close>, \<open>None\<close> when it has no such name (the lookup is then
  \<^verbatim>\<open>undefined\<close>, which equals no packet's tag).
\<close>

definition isPrivate :: "packet_tag option \<Rightarrow> Key \<Rightarrow> bool" where
  "isPrivate private_key k =
     (length (filterByTag (case private_key of None \<Rightarrow> [] | Some t \<Rightarrow> [t]) (Key.packets k)) \<noteq> 0)"

text \<open>
  Modelled from the spec: the constructors \<^verbatim>\<open>packet.public_key\<close> and
  \<^verbatim>\<open>packet.public_subkey\<close>, which \<^verbatim>\<open>toPublic\<close> calls, are not part of the sources.
  The spec has \<^verbatim>\<open>toPublic\<close> "derive the corresponding public_key/public_subkey
  packet": the packets they make carry the tags public_key and public_subkey,
  whatever \<^verbatim>\<open>read\<close> stores in the other fields.
\<close>

definition new_public_key :: "packet_module \<Rightarrow> bytes \<Rightarrow> packet" where
  "new_public_key m bytes = (key_read m bytes)\<lparr>tag := public_key\<rparr>"

definition new_public_subkey :: "packet_module \<Rightarrow> bytes \<Rightarrow> packet" where
  "new_public_subkey m bytes = (key_read m bytes)\<lparr>tag := public_subkey\<rparr>"

text \<open>
  The body of the loop at index \<open>i\<close>: two \<^verbatim>\<open>if\<close> statements in a row, the second one
  reading \<^verbatim>\<open>this.packets[i]\<close> again, after the first may have replaced it.
\<close>

definition toPublic_step :: "packet_module \<Rightarrow> nat \<Rightarrow> packet list \<Rightarrow> packet list" where
  "toPublic_step m i ps =
     (let ps1 = (if tag (ps ! i) = secret_key
                 then ps[i := new_public_key m (writePublicKey m (ps ! i))] else ps)
      in (if tag (ps1 ! i) = secret_subkey
          then ps1[i := new_public_subkey m (writePublicKey m (ps1 ! i))] else ps1))"

function toPublic_loop :: "packet_module \<Rightarrow> nat \<Rightarrow> packet list \<Rightarrow> packet list" where
  "toPublic_loop m i ps =
     (if i < length ps then toPublic_loop m (i + 1) (toPublic_step m i ps) else ps)"
  by pat_completeness auto
termination
  by (relation "measure (\<lambda>(m, i, ps). length ps - i)") (auto simp: toPublic_step_def Let_def)

declare toPublic_loop.simps [simp del]

definition toPublic :: "packet_module \<Rightarrow> Key \<Rightarrow> Key" where
  "toPublic m k = k\<lparr>Key.packets := toPublic_loop m 0 (Key.packets k)\<rparr>"

text \<open>\<^verbatim>\<open>getSigningKeyPacket\<close>: \<^verbatim>\<open>keys[i].algorithm\<close> throws when \<^verbatim>\<open>keys[i]\<close> is null.\<close>

definition signing :: "publicKey list" where
  "signing = [rsa_encrypt_sign, rsa_sign, dsa]"

fun getSigningKeyPacket_loop :: "packet option list \<Rightarrow> js_error + packet option" where
  "getSigningKeyPacket_loop [] = Inr None"
| "getSigningKeyPacket_loop (None # keys) = Inl TypeError"
| "getSigningKeyPacket_loop (Some p # keys) =
     (if algorithm p \<in> set signing then Inr (Some p) else getSigningKeyPacket_loop keys)"

definition getSigningKeyPacket :: "Key \<Rightarrow> js_error + packet option" where
  "getSigningKeyPacket k = getSigningKeyPacket_loop (getAllKeyPackets k)"

text \<open>
  \<^verbatim>\<open>getEncryptionKeyPacket\<close>: \<^verbatim>\<open>isValidEncryptionKey\<close> reads \<^verbatim>\<open>key.algorithm\<close>, so it
  throws when it is given the \<^verbatim>\<open>null\<close> of a key without a primary key packet.
\<close>

definition isValidEncryptionKey :: "packet option \<Rightarrow> js_error + bool" where
  "isValidEncryptionKey key =
     (case key of
        None \<Rightarrow> Inl TypeError
      | Some p \<Rightarrow> Inr (algorithm p \<noteq> dsa \<and> algorithm p \<noteq> rsa_sign))"

fun getEncryptionKeyPacket_loop :: "packet list \<Rightarrow> packet option \<Rightarrow> js_error + packet option" where
  "getEncryptionKeyPacket_loop [] primaryKey =
     (case isValidEncryptionKey primaryKey of
        Inl e \<Rightarrow> Inl e
      | Inr valid \<Rightarrow> Inr (if valid then primaryKey else None))"
| "getEncryptionKeyPacket_loop (p # subkeys) primaryKey =
     (case isValidEncryptionKey (Some p) of
        Inl e \<Rightarrow> Inl e
      | Inr valid \<Rightarrow>
          (if valid then Inr (Some p) else getEncryptionKeyPacket_loop subkeys primaryKey))"

definition getEncryptionKeyPacket :: "Key \<Rightarrow> js_error + packet option" where
  "getEncryptionKeyPacket k = getEncryptionKeyPacket_loop (getSubkeyPackets k) (getKeyPacket k)"

text \<open>
  \<^verbatim>\<open>decrypt\<close>: \<open>keys\<close> are the positions of the secret key and subkey packets, taken
  before the first call; each call mutates the packet at its position, and the
  first call that does not succeed ends the loop.
\<close>

fun decrypt_loop :: "packet_module \<Rightarrow> string \<Rightarrow> nat list \<Rightarrow> packet list \<Rightarrow> bool \<times> packet list" where
  "decrypt_loop m passphrase [] ps = (True, ps)"
| "decrypt_loop m passphrase (i # keys) ps =
     (case packet_decrypt m passphrase (ps ! i) of
        (success, p') \<Rightarrow>
          (if \<not> success then (False, ps[i := p'])
           else decrypt_loop m passphrase keys (ps[i := p'])))"

definition decrypt :: "packet_module \<Rightarrow> string \<Rightarrow> Key \<Rightarrow> bool \<times> Key" where
  "decrypt m passphrase k =
     (case decrypt_loop m passphrase
             (filterByTag_refs [secret_key, secret_subkey] (Key.packets k)) (Key.packets k) of
        (result, ps) \<Rightarrow> (result, k\<lparr>Key.packets := ps\<rparr>))"

section \<open>Concrete collaborators and keys\<close>

text \<open>
  A small world to run the definitions in: a cipher that puts the key in front of
  the data, a packet list that is written as the bodies of its packets and read
  as one signature packet per byte, key packets whose public part is their body,
  and a secret key packet that is unlocked by the passphrase stored in its body.
\<close>

definition byte_packet :: "char \<Rightarrow> packet" where
  "byte_packet ch = \<lparr>tag = signature, algorithm = dsa, getKeyId = [], body = [ch]\<rparr>"

definition example_crypto :: crypto where
  "example_crypto =
     \<lparr>cfb_decrypt = (\<lambda>algo key enc resync.
          case enc of
            None \<Rightarrow> Inl TypeError
          | Some ct \<Rightarrow>
              if take (length key) ct = key then Inr (drop (length key) ct)
              else Inl (Error ''decrypt'')),
      cfb_encrypt = (\<lambda>prefixrandom algo data key resync. Inr (key @ data)),
      getPrefixRandom = (\<lambda>algo. Inr (replicate algo CHR ''r'')),
      packetlist_read = (\<lambda>pl bytes. Inr (map byte_packet bytes)),
      packetlist_write = (\<lambda>pl. Inr (concat (map body pl)))\<rparr>"

definition example_container :: packet_symmetrically_encrypted where
  "example_container =
     \<lparr>encrypted = Some ''kAB'', packets = Some [byte_packet CHR ''A'', byte_packet CHR ''B'']\<rparr>"

definition example_packet_module :: packet_module where
  "example_packet_module =
     \<lparr>writePublicKey = body,
      key_read = (\<lambda>bytes. \<lparr>tag = other_tag 0, algorithm = rsa_encrypt_sign,
                             getKeyId = take 2 bytes, body = bytes\<rparr>),
      packet_decrypt = (\<lambda>passphrase p.
          if body p = passphrase then (True, p\<lparr>body := ''open''\<rparr>) else (False, p))\<rparr>"

definition example_primary :: packet where
  "example_primary = \<lparr>tag = secret_key, algorithm = rsa_sign, getKeyId = ''K1'', body = ''pw''\<rparr>"

definition example_uid :: packet where
  "example_uid = \<lparr>tag = user_id, algorithm = other_algorithm ''none'', getKeyId = [], body = ''alice''\<rparr>"

definition example_subkey :: packet where
  "example_subkey =
     \<lparr>tag = secret_subkey, algorithm = rsa_encrypt_sign, getKeyId = ''K2'', body = ''pw''\<rparr>"

definition example_subkey2 :: packet where
  "example_subkey2 =
     \<lparr>tag = secret_subkey, algorithm = dsa, getKeyId = ''K3'', body = ''other''\<rparr>"

definition example_key :: Key where
  "example_key = \<lparr>packets = [example_primary, example_uid, example_subkey, example_subkey2]\<rparr>"

definition example_public_key :: Key where
  "example_public_key =
     \<lparr>packets = [example_primary\<lparr>tag := public_key\<rparr>, example_uid,
                 example_subkey\<lparr>tag := public_subkey\<rparr>]\<rparr>"

definition dsa_only_key :: Key where
  "dsa_only_key =
     \<lparr>packets = [\<lparr>tag = public_key, algorithm = dsa, getKeyId = ''K9'', body = ''dsa''\<rparr>]\<rparr>"




section \<open>Properties of the selection loops\<close>

text \<open>
  Each loop of the class computes a function of the list library: the first
  packet with a primary tag, the packets with a subkey tag in stream order, the
  first packet whose key id is among the candidates.
\<close>

lemma filterByTag_refs_nth:
  "map ((!) ps) (filterByTag_refs tags ps) = filterByTag tags ps"
proof -
  have "map ((!) ps) (filter (\<lambda>i. tag (ps ! i) \<in> set tags) [0..<length ps])
        = filter (\<lambda>p. tag p \<in> set tags) (map ((!) ps) [0..<length ps])"
    by (simp add: filter_map comp_def)
  then show ?thesis
    by (simp add: filterByTag_refs_def filterByTag_def map_nth)
qed

lemma getKeyPacket_loop_find:
  "getKeyPacket_loop ps = List.find (\<lambda>p. tag p = public_key \<or> tag p = secret_key) ps"
  by (induction ps) simp_all

lemma getSubkeyPackets_loop_filter:
  "getSubkeyPackets_loop ps subkeys =
     subkeys @ filter (\<lambda>p. tag p = public_subkey \<or> tag p = secret_subkey) ps"
  by (induction ps arbitrary: subkeys) simp_all

lemma getSubkeyPackets_filter:
  "getSubkeyPackets k = filter (\<lambda>p. tag p = public_subkey \<or> tag p = secret_subkey) (Key.packets k)"
  by (simp add: getSubkeyPackets_def getSubkeyPackets_loop_filter)

lemma findKey_inner_member: "findKey_inner keyId keyIds = (keyId \<in> set keyIds)"
  by (induction keyIds) auto

lemma findKey_find: "findKey keys keyIds = List.find (\<lambda>p. getKeyId p \<in> set keyIds) keys"
  by (induction keys) (simp_all add: findKey_inner_member)

section \<open>Lookup by key id\<close>

text \<open>
  C6.  \<^verbatim>\<open>getPublicKeyPacket\<close> and \<^verbatim>\<open>getPrivateKeyPacket\<close> keep the packets whose tag
  has the requested role (public_key or public_subkey, secret_key or
  secret_subkey) and return the first of them, in stream order, whose key id equals
  one of the candidates.  They return \<^verbatim>\<open>null\<close> for an empty list of candidates and
  when no packet of the key has a key id among the candidates.
\<close>

theorem findByKeyIds_first_match:
  "getPublicKeyPacket k keyIds =
     List.find (\<lambda>p. getKeyId p \<in> set keyIds)
       (filter (\<lambda>p. tag p = public_key \<or> tag p = public_subkey) (Key.packets k))
   \<and> getPrivateKeyPacket k keyIds =
     List.find (\<lambda>p. getKeyId p \<in> set keyIds)
       (filter (\<lambda>p. tag p = secret_key \<or> tag p = secret_subkey) (Key.packets k))
   \<and> getPublicKeyPacket k [] = None
   \<and> getPrivateKeyPacket k [] = None
   \<and> ((\<forall>p \<in> set (Key.packets k). getKeyId p \<notin> set keyIds) \<longrightarrow>
        getPublicKeyPacket k keyIds = None \<and> getPrivateKeyPacket k keyIds = None)"
proof -
  have pub: "getPublicKeyPacket k ids =
     List.find (\<lambda>p. getKeyId p \<in> set ids)
       (filter (\<lambda>p. tag p = public_key \<or> tag p = public_subkey) (Key.packets k))" for ids
    by (simp add: getPublicKeyPacket_def filterByTag_def findKey_find)
  have priv: "getPrivateKeyPacket k ids =
     List.find (\<lambda>p. getKeyId p \<in> set ids)
       (filter (\<lambda>p. tag p = secret_key \<or> tag p = secret_subkey) (Key.packets k))" for ids
    by (simp add: getPrivateKeyPacket_def filterByTag_def findKey_find)
  have empty: "List.find (\<lambda>p. getKeyId p \<in> set []) xs = None" for xs :: "packet list"
    by (induction xs) simp_all
  have none: "(\<forall>p \<in> set (Key.packets k). getKeyId p \<notin> set keyIds) \<Longrightarrow>
      List.find (\<lambda>p. getKeyId p \<in> set keyIds) (filter P (Key.packets k)) = None" for P
    by (simp add: find_None_iff)
  show ?thesis
    using pub priv empty none by simp
qed

text \<open>The definitions of the example key, for evaluation.\<close>

lemmas ex_defs = example_key_def example_primary_def example_uid_def example_subkey_def
  example_subkey2_def example_public_key_def dsa_only_key_def

theorem findByKeyIds_first_match_witness:
  "getPrivateKeyPacket example_key [''K3'', ''K2''] = Some example_subkey
   \<and> getPublicKeyPacket example_key [''K3'', ''K2''] = None
   \<and> list_all (\<lambda>p. getKeyId p \<notin> set [''K7'']) (Key.packets example_key)
   \<and> getPrivateKeyPacket example_key [''K7''] = None"
  using findByKeyIds_first_match [of example_key "[''K3'', ''K2'']"]
        findByKeyIds_first_match [of example_key "[''K7'']"]
  by (simp add: ex_defs)

section \<open>Public and private keys\<close>

text \<open>
  Were \<^verbatim>\<open>isPrivate\<close> to filter by the tag secret_key, as every other function of
  the class does, it would be true exactly when some packet of the key is tagged
  secret_key, and never together with \<^verbatim>\<open>isPublic\<close> on a key with exactly one
  primary key packet.
\<close>

lemma isPrivate_of_secret_key_tag:
  "isPrivate (Some secret_key) k = (\<exists>p \<in> set (Key.packets k). tag p = secret_key)
   \<and> (length (filter (\<lambda>p. tag p = public_key \<or> tag p = secret_key) (Key.packets k)) = 1 \<longrightarrow>
        \<not> (isPublic k \<and> isPrivate (Some secret_key) k))"
proof -
  have priv: "isPrivate (Some secret_key) k = (\<exists>p \<in> set (Key.packets k). tag p = secret_key)"
    by (simp add: isPrivate_def filterByTag_def filter_empty_conv)
  have pub: "isPublic k = (\<exists>p \<in> set (Key.packets k). tag p = public_key)"
    by (simp add: isPublic_def filterByTag_def filter_empty_conv)
  have two: "2 \<le> length (filter (\<lambda>p. tag p = public_key \<or> tag p = secret_key) xs)"
    if "\<exists>p \<in> set xs. tag p = public_key" and "\<exists>p \<in> set xs. tag p = secret_key"
    for xs :: "packet list"
    using that
  proof (induction xs)
    case Nil
    then show ?case by simp
  next
    case (Cons x xs)
    show ?case
    proof (cases "tag x = public_key")
      case True
      with Cons.prems have "\<exists>p \<in> set xs. tag p = secret_key" by auto
      then have "filter (\<lambda>p. tag p = public_key \<or> tag p = secret_key) xs \<noteq> []"
        by (auto simp: filter_empty_conv)
      then have "1 \<le> length (filter (\<lambda>p. tag p = public_key \<or> tag p = secret_key) xs)"
        by (simp add: Suc_leI)
      with True show ?thesis by simp
    next
      case notpub: False
      show ?thesis
      proof (cases "tag x = secret_key")
        case True
        with Cons.prems have "\<exists>p \<in> set xs. tag p = public_key" by auto
        then have "filter (\<lambda>p. tag p = public_key \<or> tag p = secret_key) xs \<noteq> []"
          by (auto simp: filter_empty_conv)
        then have "1 \<le> length (filter (\<lambda>p. tag p = public_key \<or> tag p = secret_key) xs)"
          by (simp add: Suc_leI)
        with True show ?thesis by simp
      next
        case False
        with notpub Cons.prems have "\<exists>p \<in> set xs. tag p = public_key"
          and "\<exists>p \<in> set xs. tag p = secret_key" by auto
        then have "2 \<le> length (filter (\<lambda>p. tag p = public_key \<or> tag p = secret_key) xs)"
          by (rule Cons.IH)
        with notpub False show ?thesis by simp
      qed
    qed
  qed
  have excl: "length (filter (\<lambda>p. tag p = public_key \<or> tag p = secret_key) (Key.packets k)) = 1 \<longrightarrow>
        \<not> (isPublic k \<and> isPrivate (Some secret_key) k)"
  proof (intro impI notI)
    assume one: "length (filter (\<lambda>p. tag p = public_key \<or> tag p = secret_key) (Key.packets k)) = 1"
      and both: "isPublic k \<and> isPrivate (Some secret_key) k"
    from both pub have "\<exists>p \<in> set (Key.packets k). tag p = public_key" by simp
    moreover from both priv have "\<exists>p \<in> set (Key.packets k). tag p = secret_key" by simp
    ultimately have "2 \<le> length (filter (\<lambda>p. tag p = public_key \<or> tag p = secret_key) (Key.packets k))"
      by (rule two)
    with one show False by simp
  qed
  from priv excl show ?thesis by blast
qed

text \<open>
  When the table has no name \<^verbatim>\<open>private_key\<close>, \<^verbatim>\<open>isPrivate\<close> is false for every key.
\<close>

lemma isPrivate_undefined_name: "isPrivate None k = False"
  by (simp add: isPrivate_def filterByTag_def)

text \<open>
  C1 says that \<^verbatim>\<open>isPrivate\<close> is true exactly when some packet of the key is tagged
  secret_key.  The code filters by \<^verbatim>\<open>enums.packet.private_key\<close> instead.  On a key
  whose only packet is tagged secret_key it returns false, whatever the table holds
  under that name, the name missing included, as long as it is not the tag
  secret_key itself.
\<close>

theorem isPrivate_misses_secret_key:
  "private_key \<noteq> Some secret_key \<Longrightarrow>
   tag example_primary = secret_key
   \<and> isPrivate private_key \<lparr>packets = [example_primary]\<rparr> = False
   \<and> isPrivate private_key \<lparr>packets = [example_primary]\<rparr> \<noteq>
       (\<exists>p \<in> set (Key.packets \<lparr>packets = [example_primary]\<rparr>). tag p = secret_key)"
  by (cases private_key) (auto simp: isPrivate_def filterByTag_def example_primary_def)

theorem isPrivate_misses_secret_key_witness:
  "(None :: packet_tag option) \<noteq> Some secret_key
   \<and> tag example_primary = secret_key
   \<and> isPrivate None \<lparr>packets = [example_primary]\<rparr> = False"
  using isPrivate_misses_secret_key [of None] by simp

section \<open>Decrypting the secret key packets\<close>

text \<open>
  The loop of \<^verbatim>\<open>decrypt\<close> runs over positions in increasing order, so a call changes
  a packet that no later call reads: every call sees its packet as it was before
  \<^verbatim>\<open>decrypt\<close> started.
\<close>

lemma decrypt_loop_length: "length (snd (decrypt_loop m pw keys ps)) = length ps"
  by (induction keys arbitrary: ps) (simp_all split: prod.splits)

lemma decrypt_loop_result:
  "sorted_wrt (<) keys \<Longrightarrow>
   fst (decrypt_loop m pw keys ps) = (\<forall>i \<in> set keys. fst (packet_decrypt m pw (ps ! i)))"
proof (induction keys arbitrary: ps)
  case Nil
  then show ?case by simp
next
  case (Cons i keys)
  obtain success p' where d: "packet_decrypt m pw (ps ! i) = (success, p')"
    by (cases "packet_decrypt m pw (ps ! i)")
  from Cons.prems have later: "\<forall>j \<in> set keys. i < j" and rest: "sorted_wrt (<) keys"
    by simp_all
  from later have same: "\<forall>j \<in> set keys. ps[i := p'] ! j = ps ! j"
    by auto
  show ?case
  proof (cases success)
    case False
    with d show ?thesis by simp
  next
    case True
    with d have "fst (decrypt_loop m pw (i # keys) ps) = fst (decrypt_loop m pw keys (ps[i := p']))"
      by simp
    also have "\<dots> = (\<forall>j \<in> set keys. fst (packet_decrypt m pw (ps[i := p'] ! j)))"
      using rest by (rule Cons.IH)
    also have "\<dots> = (\<forall>j \<in> set keys. fst (packet_decrypt m pw (ps ! j)))"
      using same by simp
    finally show ?thesis using True d by simp
  qed
qed

lemma decrypt_loop_nth:
  "sorted_wrt (<) keys \<Longrightarrow> \<forall>i \<in> set keys. i < length ps \<Longrightarrow>
   snd (decrypt_loop m pw keys ps) ! n =
     (if n \<in> set keys \<and> (\<forall>j \<in> set keys. j < n \<longrightarrow> fst (packet_decrypt m pw (ps ! j)))
      then snd (packet_decrypt m pw (ps ! n)) else ps ! n)"
proof (induction keys arbitrary: ps)
  case Nil
  then show ?case by simp
next
  case (Cons i keys)
  obtain success p' where d: "packet_decrypt m pw (ps ! i) = (success, p')"
    by (cases "packet_decrypt m pw (ps ! i)")
  from Cons.prems have later: "\<forall>j \<in> set keys. i < j" and rest: "sorted_wrt (<) keys"
    and i: "i < length ps" and bound: "\<forall>j \<in> set keys. j < length (ps[i := p'])"
    by simp_all
  from later have same: "\<forall>j \<in> set keys. ps[i := p'] ! j = ps ! j"
    by auto
  from later have fresh: "i \<notin> set keys" by auto
  show ?case
  proof (cases success)
    case False
    show ?thesis
    proof (cases "n = i")
      case True
      with False d i later show ?thesis by auto
    next
      case neq: False
      with False d i later show ?thesis by auto
    qed
  next
    case True
    have step: "snd (decrypt_loop m pw (i # keys) ps) ! n = snd (decrypt_loop m pw keys (ps[i := p'])) ! n"
      using True d by simp
    have ih: "snd (decrypt_loop m pw keys (ps[i := p'])) ! n =
      (if n \<in> set keys \<and> (\<forall>j \<in> set keys. j < n \<longrightarrow> fst (packet_decrypt m pw (ps[i := p'] ! j)))
       then snd (packet_decrypt m pw (ps[i := p'] ! n)) else ps[i := p'] ! n)"
      using rest bound by (rule Cons.IH)
    show ?thesis
    proof (cases "n = i")
      case eq: True
      with step ih fresh i d later show ?thesis by auto
    next
      case neq: False
      have "(\<forall>j \<in> set keys. j < n \<longrightarrow> fst (packet_decrypt m pw (ps[i := p'] ! j)))
            = (\<forall>j \<in> set keys. j < n \<longrightarrow> fst (packet_decrypt m pw (ps ! j)))"
        using same by simp
      with step ih neq True d show ?thesis by auto
    qed
  qed
qed


lemma filterByTag_refs_sorted: "sorted_wrt (<) (filterByTag_refs tags ps)"
  by (simp add: filterByTag_refs_def sorted_wrt_filter)

lemma set_filterByTag_refs:
  "set (filterByTag_refs tags ps) = {i. i < length ps \<and> tag (ps ! i) \<in> set tags}"
  by (auto simp: filterByTag_refs_def)

text \<open>
  C3.  \<^verbatim>\<open>Key.decrypt(passphrase)\<close> calls \<^verbatim>\<open>decrypt(passphrase)\<close> on the packets tagged
  secret_key or secret_subkey in stream order and stops at the first call that
  fails: a packet is left as its own \<^verbatim>\<open>decrypt\<close> leaves it exactly when it has one of
  the two tags and the call succeeded on every such packet before it, and is
  untouched otherwise.  The result is true exactly when every call succeeds, so a
  failure is reported; the packets processed before the failing one stay decrypted.
\<close>

theorem decrypt_stops_at_first_failure:
  "fst (decrypt m passphrase k) =
     (\<forall>n < length (Key.packets k).
        tag (Key.packets k ! n) \<in> {secret_key, secret_subkey} \<longrightarrow>
        fst (packet_decrypt m passphrase (Key.packets k ! n)))
   \<and> length (Key.packets (snd (decrypt m passphrase k))) = length (Key.packets k)
   \<and> (\<forall>n < length (Key.packets k).
        Key.packets (snd (decrypt m passphrase k)) ! n =
          (if tag (Key.packets k ! n) \<in> {secret_key, secret_subkey} \<and>
              (\<forall>j < n. tag (Key.packets k ! j) \<in> {secret_key, secret_subkey} \<longrightarrow>
                       fst (packet_decrypt m passphrase (Key.packets k ! j)))
           then snd (packet_decrypt m passphrase (Key.packets k ! n))
           else Key.packets k ! n))"
proof -
  define ps where "ps = Key.packets k"
  define keys where "keys = filterByTag_refs [secret_key, secret_subkey] ps"
  have sorted: "sorted_wrt (<) keys"
    by (simp add: keys_def filterByTag_refs_sorted)
  have mem: "i \<in> set keys \<longleftrightarrow> i < length ps \<and> tag (ps ! i) \<in> {secret_key, secret_subkey}" for i
    by (auto simp: keys_def set_filterByTag_refs)
  then have bound: "\<forall>i \<in> set keys. i < length ps"
    by simp
  have res: "fst (decrypt m passphrase k) = fst (decrypt_loop m passphrase keys ps)"
    and pkts: "Key.packets (snd (decrypt m passphrase k)) = snd (decrypt_loop m passphrase keys ps)"
    by (simp_all add: decrypt_def keys_def ps_def split: prod.splits)
  have "fst (decrypt_loop m passphrase keys ps) =
      (\<forall>i \<in> set keys. fst (packet_decrypt m passphrase (ps ! i)))"
    using sorted by (rule decrypt_loop_result)
  with mem have first: "fst (decrypt_loop m passphrase keys ps) =
      (\<forall>n < length ps. tag (ps ! n) \<in> {secret_key, secret_subkey} \<longrightarrow>
         fst (packet_decrypt m passphrase (ps ! n)))"
    by auto
  have second: "length (snd (decrypt_loop m passphrase keys ps)) = length ps"
    by (rule decrypt_loop_length)
  have third: "snd (decrypt_loop m passphrase keys ps) ! n =
      (if tag (ps ! n) \<in> {secret_key, secret_subkey} \<and>
          (\<forall>j < n. tag (ps ! j) \<in> {secret_key, secret_subkey} \<longrightarrow>
                   fst (packet_decrypt m passphrase (ps ! j)))
       then snd (packet_decrypt m passphrase (ps ! n)) else ps ! n)"
    if n: "n < length ps" for n
  proof -
    have "(\<forall>j \<in> set keys. j < n \<longrightarrow> fst (packet_decrypt m passphrase (ps ! j))) =
          (\<forall>j < n. tag (ps ! j) \<in> {secret_key, secret_subkey} \<longrightarrow>
                   fst (packet_decrypt m passphrase (ps ! j)))"
      using mem n by auto
    moreover have "n \<in> set keys \<longleftrightarrow> tag (ps ! n) \<in> {secret_key, secret_subkey}"
      using mem n by simp
    ultimately show ?thesis
      using decrypt_loop_nth [OF sorted bound, of m passphrase n] by simp
  qed
  from first second third show ?thesis
    unfolding res pkts ps_def [symmetric] by blast
qed

theorem decrypt_stops_at_first_failure_witness:
  "decrypt example_packet_module ''pw'' example_key =
     (False, \<lparr>packets = [example_primary\<lparr>body := ''open''\<rparr>, example_uid,
                         example_subkey\<lparr>body := ''open''\<rparr>, example_subkey2]\<rparr>)
   \<and> \<not> fst (packet_decrypt example_packet_module ''pw'' (Key.packets example_key ! 3))"
  using decrypt_stops_at_first_failure [of example_packet_module "''pw''" example_key]
  by (simp add: ex_defs decrypt_def filterByTag_refs_def example_packet_module_def)

text \<open>
  C10.  On a key without a packet tagged secret_key or secret_subkey,
  \<^verbatim>\<open>decrypt\<close> returns true for every passphrase and leaves every packet as it was.
\<close>

theorem decrypt_public_key_noop:
  "\<forall>p \<in> set (Key.packets k). tag p \<noteq> secret_key \<and> tag p \<noteq> secret_subkey \<Longrightarrow>
   decrypt m passphrase k = (True, k)"
proof -
  assume "\<forall>p \<in> set (Key.packets k). tag p \<noteq> secret_key \<and> tag p \<noteq> secret_subkey"
  then have "set (filterByTag_refs [secret_key, secret_subkey] (Key.packets k)) = {}"
    by (auto simp: set_filterByTag_refs)
  then have "filterByTag_refs [secret_key, secret_subkey] (Key.packets k) = []"
    by simp
  then show ?thesis
    by (simp add: decrypt_def)
qed

theorem decrypt_public_key_noop_witness:
  "list_all (\<lambda>p. tag p \<noteq> secret_key \<and> tag p \<noteq> secret_subkey) (Key.packets example_public_key)
   \<and> decrypt example_packet_module ''pw'' example_public_key = (True, example_public_key)
   \<and> decrypt example_packet_module ''wrong'' example_public_key = (True, example_public_key)"
  using decrypt_public_key_noop [of example_public_key example_packet_module "''pw''"]
        decrypt_public_key_noop [of example_public_key example_packet_module "''wrong''"]
  by (simp add: ex_defs)

section \<open>Conversion to a public key\<close>

text \<open>
  One run of the loop body replaces the packet at its index by the public packet
  made from it when the packet is tagged secret_key or secret_subkey; the second
  \<^verbatim>\<open>if\<close> never fires on a packet that the first one has just made, whose tag is
  public_key.  The whole loop is a map over the list.
\<close>

lemma toPublic_step_update:
  "i < length ps \<Longrightarrow>
   toPublic_step m i ps =
     ps[i := (if tag (ps ! i) = secret_key then new_public_key m (writePublicKey m (ps ! i))
              else if tag (ps ! i) = secret_subkey then new_public_subkey m (writePublicKey m (ps ! i))
              else ps ! i)]"
  by (simp add: toPublic_step_def Let_def new_public_key_def)

lemma toPublic_loop_map:
  "toPublic_loop m i ps =
     take i ps @
     map (\<lambda>p. if tag p = secret_key then new_public_key m (writePublicKey m p)
              else if tag p = secret_subkey then new_public_subkey m (writePublicKey m p)
              else p) (drop i ps)"
proof (induction m i ps rule: toPublic_loop.induct)
  case (1 m i ps)
  let ?conv = "\<lambda>p. if tag p = secret_key then new_public_key m (writePublicKey m p)
              else if tag p = secret_subkey then new_public_subkey m (writePublicKey m p)
              else p"
  show ?case
  proof (cases "i < length ps")
    case False
    then show ?thesis by (subst toPublic_loop.simps) simp
  next
    case True
    have step: "toPublic_step m i ps = ps[i := ?conv (ps ! i)]"
      using True by (simp add: toPublic_step_update)
    have "toPublic_loop m i ps = toPublic_loop m (i + 1) (ps[i := ?conv (ps ! i)])"
      using True step by (subst toPublic_loop.simps) simp
    also have "\<dots> = take (i + 1) (ps[i := ?conv (ps ! i)]) @
                      map ?conv (drop (i + 1) (ps[i := ?conv (ps ! i)]))"
      using "1.IH" [OF True] step by simp
    also have "take (i + 1) (ps[i := ?conv (ps ! i)]) = take i ps @ [?conv (ps ! i)]"
      using True by (simp add: take_Suc_conv_app_nth)
    also have "drop (i + 1) (ps[i := ?conv (ps ! i)]) = drop (Suc i) ps"
      by simp
    finally have unrolled: "toPublic_loop m i ps =
        (take i ps @ [?conv (ps ! i)]) @ map ?conv (drop (Suc i) ps)" .
    have "drop i ps = ps ! i # drop (Suc i) ps"
      using True by (rule Cons_nth_drop_Suc [symmetric])
    then have "take i ps @ map ?conv (drop i ps) =
        (take i ps @ [?conv (ps ! i)]) @ map ?conv (drop (Suc i) ps)"
      by simp
    with unrolled show ?thesis by simp
  qed
qed

lemma toPublic_packets:
  "Key.packets (toPublic m k) =
     map (\<lambda>p. if tag p = secret_key then new_public_key m (writePublicKey m p)
              else if tag p = secret_subkey then new_public_subkey m (writePublicKey m p)
              else p) (Key.packets k)"
proof -
  have "Key.packets (toPublic m k) = toPublic_loop m 0 (Key.packets k)"
    by (simp add: toPublic_def)
  also have "\<dots> = take 0 (Key.packets k) @
      map (\<lambda>p. if tag p = secret_key then new_public_key m (writePublicKey m p)
               else if tag p = secret_subkey then new_public_subkey m (writePublicKey m p)
               else p) (drop 0 (Key.packets k))"
    by (rule toPublic_loop_map)
  finally show ?thesis by simp
qed

text \<open>
  C7.  \<^verbatim>\<open>toPublic\<close> keeps the length of the packet list and replaces, at its own
  position, every packet tagged secret_key by the public_key packet read from its
  \<^verbatim>\<open>writePublicKey()\<close> bytes and every packet tagged secret_subkey by the
  public_subkey packet read from them; every other packet is unchanged.  No packet
  tagged secret_key or secret_subkey is left, and a second \<^verbatim>\<open>toPublic\<close> changes
  nothing.
\<close>

theorem toPublic_idempotent:
  "length (Key.packets (toPublic m k)) = length (Key.packets k)
   \<and> (\<forall>n < length (Key.packets k).
        Key.packets (toPublic m k) ! n =
          (if tag (Key.packets k ! n) = secret_key
             then new_public_key m (writePublicKey m (Key.packets k ! n))
           else if tag (Key.packets k ! n) = secret_subkey
             then new_public_subkey m (writePublicKey m (Key.packets k ! n))
           else Key.packets k ! n)
        \<and> tag (Key.packets (toPublic m k) ! n) =
          (if tag (Key.packets k ! n) = secret_key then public_key
           else if tag (Key.packets k ! n) = secret_subkey then public_subkey
           else tag (Key.packets k ! n)))
   \<and> (\<forall>p \<in> set (Key.packets (toPublic m k)). tag p \<noteq> secret_key \<and> tag p \<noteq> secret_subkey)
   \<and> toPublic m (toPublic m k) = toPublic m k"
proof -
  let ?conv = "\<lambda>p. if tag p = secret_key then new_public_key m (writePublicKey m p)
              else if tag p = secret_subkey then new_public_subkey m (writePublicKey m p)
              else p"
  have pk: "Key.packets (toPublic m k') = map ?conv (Key.packets k')" for k'
    by (rule toPublic_packets)
  have tag_conv: "tag (?conv p) =
      (if tag p = secret_key then public_key
       else if tag p = secret_subkey then public_subkey else tag p)" for p
    by (simp add: new_public_key_def new_public_subkey_def)
  have nosecret: "tag (?conv p) \<noteq> secret_key \<and> tag (?conv p) \<noteq> secret_subkey" for p
    by (simp add: new_public_key_def new_public_subkey_def)
  have conv_twice: "?conv (?conv p) = ?conv p" for p
    by (simp add: new_public_key_def new_public_subkey_def)
  have len: "length (Key.packets (toPublic m k)) = length (Key.packets k)"
    by (simp add: pk)
  have nth: "\<forall>n < length (Key.packets k).
        Key.packets (toPublic m k) ! n = ?conv (Key.packets k ! n)
        \<and> tag (Key.packets (toPublic m k) ! n) =
          (if tag (Key.packets k ! n) = secret_key then public_key
           else if tag (Key.packets k ! n) = secret_subkey then public_subkey
           else tag (Key.packets k ! n))"
    using tag_conv by (simp add: pk)
  have clean: "\<forall>p \<in> set (Key.packets (toPublic m k)). tag p \<noteq> secret_key \<and> tag p \<noteq> secret_subkey"
    by (auto simp: pk new_public_key_def new_public_subkey_def)
  have "map ?conv (map ?conv (Key.packets k)) = map ?conv (Key.packets k)"
    using conv_twice by (simp add: comp_def)
  then have "Key.packets (toPublic m (toPublic m k)) = Key.packets (toPublic m k)"
    by (simp only: pk)
  then have twice: "toPublic m (toPublic m k) = toPublic m k"
    by (simp add: toPublic_def)
  show ?thesis
    by (rule conjI [OF len conjI [OF nth conjI [OF clean twice]]])
qed

theorem toPublic_idempotent_witness:
  "map tag (Key.packets (toPublic example_packet_module example_key)) =
     [public_key, user_id, public_subkey, public_subkey]
   \<and> Key.packets (toPublic example_packet_module example_key) ! 1 = example_uid
   \<and> toPublic example_packet_module (toPublic example_packet_module example_key) =
       toPublic example_packet_module example_key"
proof -
  have idem: "toPublic example_packet_module (toPublic example_packet_module example_key) =
       toPublic example_packet_module example_key"
    using toPublic_idempotent [of example_packet_module example_key] by blast
  have "Key.packets (toPublic example_packet_module example_key) =
      [new_public_key example_packet_module ''pw'', example_uid,
       new_public_subkey example_packet_module ''pw'',
       new_public_subkey example_packet_module ''other'']"
    by (simp add: toPublic_packets ex_defs example_packet_module_def)
  then show ?thesis
    using idem by (simp add: new_public_key_def new_public_subkey_def example_uid_def)
qed

section \<open>The two fields of the Symmetrically Encrypted Data packet\<close>

text \<open>
  What a successful \<^verbatim>\<open>decrypt\<close> and a successful \<^verbatim>\<open>encrypt\<close> have done: each
  writes one field and leaves the other one alone.
\<close>

lemma sed_decrypt_Inr:
  "sed_decrypt c algo key s = Inr s' \<longleftrightarrow>
     (\<exists>pl decrypted pl'.
        packet_symmetrically_encrypted.packets s = Some pl
        \<and> cfb_decrypt c algo key (encrypted s) True = Inr decrypted
        \<and> packetlist_read c pl decrypted = Inr pl'
        \<and> s' = s\<lparr>packet_symmetrically_encrypted.packets := Some pl'\<rparr>)"
  by (auto simp: sed_decrypt_def split: sum.splits option.splits)

lemma sed_encrypt_Inr:
  "sed_encrypt c algo key s = Inr s' \<longleftrightarrow>
     (\<exists>pl data prefixrandom bytes.
        packet_symmetrically_encrypted.packets s = Some pl
        \<and> packetlist_write c pl = Inr data
        \<and> getPrefixRandom c algo = Inr prefixrandom
        \<and> cfb_encrypt c prefixrandom algo data key True = Inr bytes
        \<and> s' = s\<lparr>encrypted := Some bytes\<rparr>)"
  by (auto simp: sed_encrypt_def split: sum.splits option.splits)

text \<open>The definitions of the example container, for evaluation.\<close>

lemmas container_defs = example_container_def example_crypto_def byte_packet_def
  new_packet_symmetrically_encrypted_def

text \<open>
  C2, as stated, does not hold: the example container holds its ciphertext and its
  packet list at once, a \<^verbatim>\<open>decrypt\<close> and an \<^verbatim>\<open>encrypt\<close> both succeed on it, and
  each leaves it as it is, with both fields set.  A new container holds neither.
\<close>

theorem container_both_fields_counterexample:
  "sed_decrypt example_crypto 7 ''k'' example_container = Inr example_container
   \<and> sed_encrypt example_crypto 7 ''k'' example_container = Inr example_container
   \<and> encrypted example_container = Some ''kAB''
   \<and> packet_symmetrically_encrypted.packets example_container =
       Some [byte_packet CHR ''A'', byte_packet CHR ''B'']
   \<and> encrypted new_packet_symmetrically_encrypted = None
   \<and> packet_symmetrically_encrypted.packets new_packet_symmetrically_encrypted = None"
  by (simp add: sed_decrypt_def sed_encrypt_def container_defs)

text \<open>
  C2, amended.  The container has two fields, \<^verbatim>\<open>encrypted\<close> and \<^verbatim>\<open>packets\<close>,
  which can be set at once.  A successful \<^verbatim>\<open>decrypt(algorithm, key)\<close> needs a packet
  list in \<^verbatim>\<open>packets\<close>, leaves \<^verbatim>\<open>encrypted\<close> as it was and leaves in \<^verbatim>\<open>packets\<close>
  what \<^verbatim>\<open>read\<close> makes of the CFB-decrypted bytes.  A successful
  \<^verbatim>\<open>encrypt(algorithm, key)\<close> leaves \<^verbatim>\<open>packets\<close> as it was and stores in
  \<^verbatim>\<open>encrypted\<close> the CFB encryption of the serialized inner packet list.
\<close>

theorem sed_decrypt_encrypt_effect:
  "(sed_decrypt c algo key s = Inr s' \<longrightarrow>
      encrypted s' = encrypted s
      \<and> (\<exists>pl decrypted pl'.
            packet_symmetrically_encrypted.packets s = Some pl
            \<and> cfb_decrypt c algo key (encrypted s) True = Inr decrypted
            \<and> packetlist_read c pl decrypted = Inr pl'
            \<and> packet_symmetrically_encrypted.packets s' = Some pl'))
   \<and> (sed_encrypt c algo key s = Inr s' \<longrightarrow>
      packet_symmetrically_encrypted.packets s' = packet_symmetrically_encrypted.packets s
      \<and> (\<exists>pl data prefixrandom bytes.
            packet_symmetrically_encrypted.packets s = Some pl
            \<and> packetlist_write c pl = Inr data
            \<and> getPrefixRandom c algo = Inr prefixrandom
            \<and> cfb_encrypt c prefixrandom algo data key True = Inr bytes
            \<and> encrypted s' = Some bytes))"
proof (intro conjI impI)
  assume "sed_decrypt c algo key s = Inr s'"
  then obtain pl decrypted pl' where
    "packet_symmetrically_encrypted.packets s = Some pl"
    "cfb_decrypt c algo key (encrypted s) True = Inr decrypted"
    "packetlist_read c pl decrypted = Inr pl'"
    "s' = s\<lparr>packet_symmetrically_encrypted.packets := Some pl'\<rparr>"
    unfolding sed_decrypt_Inr by blast
  then show "encrypted s' = encrypted s"
    and "\<exists>pl decrypted pl'.
            packet_symmetrically_encrypted.packets s = Some pl
            \<and> cfb_decrypt c algo key (encrypted s) True = Inr decrypted
            \<and> packetlist_read c pl decrypted = Inr pl'
            \<and> packet_symmetrically_encrypted.packets s' = Some pl'"
    by simp_all
next
  assume "sed_encrypt c algo key s = Inr s'"
  then obtain pl data prefixrandom bytes where
    "packet_symmetrically_encrypted.packets s = Some pl"
    "packetlist_write c pl = Inr data"
    "getPrefixRandom c algo = Inr prefixrandom"
    "cfb_encrypt c prefixrandom algo data key True = Inr bytes"
    "s' = s\<lparr>encrypted := Some bytes\<rparr>"
    unfolding sed_encrypt_Inr by blast
  then show "packet_symmetrically_encrypted.packets s' = packet_symmetrically_encrypted.packets s"
    and "\<exists>pl data prefixrandom bytes.
            packet_symmetrically_encrypted.packets s = Some pl
            \<and> packetlist_write c pl = Inr data
            \<and> getPrefixRandom c algo = Inr prefixrandom
            \<and> cfb_encrypt c prefixrandom algo data key True = Inr bytes
            \<and> encrypted s' = Some bytes"
    by simp_all
qed

theorem sed_decrypt_encrypt_effect_witness:
  "sed_decrypt example_crypto 7 ''k''
       (example_container\<lparr>packet_symmetrically_encrypted.packets := Some []\<rparr>) = Inr example_container
   \<and> sed_encrypt example_crypto 7 ''k''
       (example_container\<lparr>encrypted := None\<rparr>) = Inr example_container
   \<and> encrypted example_container =
       encrypted (example_container\<lparr>packet_symmetrically_encrypted.packets := Some []\<rparr>)
   \<and> packet_symmetrically_encrypted.packets example_container =
       packet_symmetrically_encrypted.packets (example_container\<lparr>encrypted := None\<rparr>)"
proof -
  have dec: "sed_decrypt example_crypto 7 ''k''
       (example_container\<lparr>packet_symmetrically_encrypted.packets := Some []\<rparr>) = Inr example_container"
    by (simp add: sed_decrypt_def container_defs)
  have enc: "sed_encrypt example_crypto 7 ''k''
       (example_container\<lparr>encrypted := None\<rparr>) = Inr example_container"
    by (simp add: sed_encrypt_def container_defs)
  from dec
    sed_decrypt_encrypt_effect [of example_crypto 7 "''k''"
      "example_container\<lparr>packet_symmetrically_encrypted.packets := Some []\<rparr>" example_container]
  have "encrypted example_container =
       encrypted (example_container\<lparr>packet_symmetrically_encrypted.packets := Some []\<rparr>)"
    by blast
  moreover from enc
    sed_decrypt_encrypt_effect [of example_crypto 7 "''k''"
      "example_container\<lparr>encrypted := None\<rparr>" example_container]
  have "packet_symmetrically_encrypted.packets example_container =
       packet_symmetrically_encrypted.packets (example_container\<lparr>encrypted := None\<rparr>)"
    by blast
  ultimately show ?thesis
    using dec enc by blast
qed

section \<open>Encrypt followed by decrypt\<close>






section \<open>Keys without a primary key packet\<close>

text \<open>
  \<^verbatim>\<open>getKeyPacket\<close> returns \<^verbatim>\<open>null\<close> for a key without a packet tagged public_key or
  secret_key, and its callers use the result without a test.  With a primary key
  packet \<^verbatim>\<open>getKeyIds\<close> returns its key id followed by the subkeys' key ids;
  without one it throws.
\<close>

lemma getKeyIds_loop_Some:
  "getKeyIds_loop (map Some ps) keyIds = Inr (keyIds @ map getKeyId ps)"
  by (induction ps arbitrary: keyIds) simp_all

lemma getKeyIds_cases:
  "getKeyIds k =
     (case getKeyPacket k of
        None \<Rightarrow> Inl TypeError
      | Some p \<Rightarrow> Inr (getKeyId p # map getKeyId (getSubkeyPackets k)))"
  by (simp add: getKeyIds_def getAllKeyPackets_def getKeyIds_loop_Some split: option.splits)

lemma getAllKeyPackets_null:
  "getKeyPacket k = None \<Longrightarrow> getAllKeyPackets k = None # map Some (getSubkeyPackets k)"
  by (simp add: getAllKeyPackets_def)

text \<open>
  C8 asks that \<^verbatim>\<open>getAllKeyPackets\<close> and \<^verbatim>\<open>getKeyIds\<close> do not crash on a key without
  a primary key packet, and return the subkeys' results or fail explicitly.  The
  code, on the key that \<^verbatim>\<open>new Key()\<close> makes and on a key that holds one subkey
  only: \<^verbatim>\<open>getAllKeyPackets\<close> puts \<^verbatim>\<open>null\<close> in front of the subkeys, and
  \<^verbatim>\<open>getKeyIds\<close> throws a TypeError on it.
\<close>

theorem getKeyIds_without_primary_key:
  "getAllKeyPackets (new_Key None) = [None]
   \<and> getKeyIds (new_Key None) = Inl TypeError
   \<and> getAllKeyPackets \<lparr>packets = [example_subkey]\<rparr> = [None, Some example_subkey]
   \<and> getKeyIds \<lparr>packets = [example_subkey]\<rparr> = Inl TypeError"
  by (simp add: getKeyIds_def getAllKeyPackets_def getKeyPacket_def getSubkeyPackets_def
      new_Key_def example_subkey_def)

section \<open>The signing key packet\<close>

text \<open>
  On a key with a primary key packet \<^verbatim>\<open>getSigningKeyPacket\<close> returns the first
  packet, primary key first and subkeys after it in stream order, whose algorithm is
  rsa_encrypt_sign, rsa_sign or dsa, and \<^verbatim>\<open>null\<close> when there is none.  On a key
  without a primary key packet it throws, whatever the subkeys are.
\<close>

lemma getSigningKeyPacket_loop_Some:
  "getSigningKeyPacket_loop (map Some ps) = Inr (List.find (\<lambda>p. algorithm p \<in> set signing) ps)"
  by (induction ps) simp_all

lemma getSigningKeyPacket_cases:
  "getSigningKeyPacket k =
     (case getKeyPacket k of
        None \<Rightarrow> Inl TypeError
      | Some p \<Rightarrow>
          Inr (List.find (\<lambda>p. algorithm p \<in> {rsa_encrypt_sign, rsa_sign, dsa})
                 (p # getSubkeyPackets k)))"
proof (cases "getKeyPacket k")
  case None
  then show ?thesis
    by (simp add: getSigningKeyPacket_def getAllKeyPackets_def)
next
  case (Some p)
  have "getSigningKeyPacket k = getSigningKeyPacket_loop (map Some (p # getSubkeyPackets k))"
    using Some by (simp add: getSigningKeyPacket_def getAllKeyPackets_def)
  also have "\<dots> = Inr (List.find (\<lambda>p. algorithm p \<in> set signing) (p # getSubkeyPackets k))"
    by (rule getSigningKeyPacket_loop_Some)
  finally show ?thesis
    using Some by (simp add: signing_def)
qed

lemma getSigningKeyPacket_scenario:
  "getSigningKeyPacket example_key = Inr (Some example_primary)"
  by (simp add: getSigningKeyPacket_cases getKeyPacket_def ex_defs)

text \<open>
  C5 says that \<^verbatim>\<open>getSigningKeyPacket\<close> returns the first signing-capable packet and
  \<^verbatim>\<open>null\<close> when no key packet of the key is signing-capable.  The code, on the key
  that \<^verbatim>\<open>new Key()\<close> makes (no key packet at all) and on a key whose only packet is
  a subkey with the algorithm rsa_encrypt_sign: a TypeError in both cases.
\<close>

theorem getSigningKeyPacket_without_primary_key:
  "getSigningKeyPacket (new_Key None) = Inl TypeError
   \<and> getSigningKeyPacket \<lparr>packets = [example_subkey]\<rparr> = Inl TypeError"
  by (simp add: getSigningKeyPacket_cases getKeyPacket_def new_Key_def example_subkey_def)

section \<open>The encryption key packet\<close>

text \<open>
  \<^verbatim>\<open>getEncryptionKeyPacket\<close> returns the first subkey whose algorithm is neither dsa
  nor rsa_sign; when no subkey qualifies it returns the primary key packet under
  the same test, \<^verbatim>\<open>null\<close> when that one fails the test, and it throws when there is
  no primary key packet.
\<close>

lemma getEncryptionKeyPacket_loop_find:
  "getEncryptionKeyPacket_loop subkeys primaryKey =
     (case List.find (\<lambda>p. algorithm p \<noteq> dsa \<and> algorithm p \<noteq> rsa_sign) subkeys of
        Some p \<Rightarrow> Inr (Some p)
      | None \<Rightarrow>
          (case primaryKey of
             None \<Rightarrow> Inl TypeError
           | Some p \<Rightarrow> Inr (if algorithm p \<noteq> dsa \<and> algorithm p \<noteq> rsa_sign then Some p else None)))"
  by (induction subkeys) (simp_all add: isValidEncryptionKey_def split: option.splits)

lemma getEncryptionKeyPacket_cases:
  "getEncryptionKeyPacket k =
     (case List.find (\<lambda>p. algorithm p \<noteq> dsa \<and> algorithm p \<noteq> rsa_sign) (getSubkeyPackets k) of
        Some p \<Rightarrow> Inr (Some p)
      | None \<Rightarrow>
          (case getKeyPacket k of
             None \<Rightarrow> Inl TypeError
           | Some p \<Rightarrow> Inr (if algorithm p \<noteq> dsa \<and> algorithm p \<noteq> rsa_sign then Some p else None)))"
  by (simp add: getEncryptionKeyPacket_def getEncryptionKeyPacket_loop_find)

lemma getEncryptionKeyPacket_scenarios:
  "getEncryptionKeyPacket dsa_only_key = Inr None
   \<and> getEncryptionKeyPacket example_key = Inr (Some example_subkey)"
  by (simp add: getEncryptionKeyPacket_cases getKeyPacket_def getSubkeyPackets_filter ex_defs)

text \<open>
  C4 says that \<^verbatim>\<open>getEncryptionKeyPacket\<close> returns \<^verbatim>\<open>null\<close> when neither a subkey nor
  the primary key packet qualifies.  The code, on the key that \<^verbatim>\<open>new Key()\<close> makes
  and on a key whose only packet is a dsa subkey: a TypeError in both cases.
\<close>

theorem getEncryptionKeyPacket_without_primary_key:
  "getEncryptionKeyPacket (new_Key None) = Inl TypeError
   \<and> getEncryptionKeyPacket \<lparr>packets = [example_subkey2]\<rparr> = Inl TypeError"
  by (simp add: getEncryptionKeyPacket_cases getKeyPacket_def getSubkeyPackets_filter
      new_Key_def example_subkey2_def)

end
